theory Spec2Isabelle
  imports Main "HOL-Library.Sublist"
begin

section \<open>Strings\<close>

text \<open>
  Python's \<open>str\<close> is modelled as \<open>string\<close>: a list of characters whose code points
  lie below 256. \<open>isspace\<close> is the whitespace test that both \<open>str.strip()\<close> and the
  regular expression class \<open>\s\<close> use on such characters: the code points 9 to 13,
  28 to 32, 133 and 160. \<open>lower\<close> maps the letters A to Z to lower case; no other
  character below 256 equals a letter of the host's words when case is ignored.
\<close>

definition isspace :: "char \<Rightarrow> bool" where
  "isspace c =
     List.member
       [CHR 0x09, CHR 0x0A, CHR 0x0B, CHR 0x0C, CHR 0x0D, CHR 0x1C, CHR 0x1D, CHR 0x1E,
        CHR 0x1F, CHR 0x20, CHR 0x85, CHR 0xA0] c"

text \<open>\<open>s.strip()\<close>: leading and trailing whitespace removed.\<close>

definition strip :: "string \<Rightarrow> string" where
  "strip s = rev (dropWhile isspace (rev (dropWhile isspace s)))"

text \<open>\<open>sep.join(parts)\<close>: the separator goes between entries only.\<close>

fun str_join :: "string \<Rightarrow> string list \<Rightarrow> string" where
  "str_join sep [] = []"
| "str_join sep [x] = x"
| "str_join sep (x # y # ys) = x @ sep @ str_join sep (y # ys)"

section \<open>The conjunction pattern and \<open>regex.split\<close>\<close>

text \<open>
  The compiled pattern comes from the host (\<open>plugins.feat_tokens()\<close>) and is a
  parameter of the model. A pattern is given by what a backtracking matcher finds
  when it is started at one index of the subject: \<open>pat s i\<close> lists the lengths of
  the matches of the pattern that begin at index \<open>i\<close> of \<open>s\<close>, in the order in which
  the matcher would try them. The pattern sees the whole subject, so that it can look
  behind and ahead of the match.
\<close>

type_synonym pattern = "string \<Rightarrow> nat \<Rightarrow> nat list"

text \<open>
  One attempt at index \<open>i\<close>: the end of the first match that the matcher accepts.
  A match lies within the subject. When \<open>must_advance\<close> is set, an empty match is
  refused and the matcher falls back to its next alternative.
\<close>

definition match_at :: "pattern \<Rightarrow> string \<Rightarrow> nat \<Rightarrow> bool \<Rightarrow> nat option" where
  "match_at pat s i must_advance =
     (case filter (\<lambda>n. i + n \<le> length s \<and> \<not> (must_advance \<and> n = 0)) (pat s i) of
        [] \<Rightarrow> None
      | n # _ \<Rightarrow> Some (i + n))"

text \<open>
  The search of the regular expression engine: the leftmost match that starts at
  \<open>start\<close> or later, as its span (first index, index after the last). Only the
  attempt at \<open>start\<close> itself is made under \<open>must_advance\<close>.
\<close>

function search :: "pattern \<Rightarrow> string \<Rightarrow> nat \<Rightarrow> bool \<Rightarrow> (nat \<times> nat) option" where
  "search pat s start must_advance =
     (if length s < start then None
      else case match_at pat s start must_advance of
             Some e \<Rightarrow> Some (start, e)
           | None \<Rightarrow> search pat s (Suc start) False)"
  by pat_completeness auto
termination
  by (relation "measure (\<lambda>(pat, s, start, must_advance). Suc (length s) - start)") auto

declare search.simps [simp del]

lemma match_at_ge: "match_at pat s i adv = Some e \<Longrightarrow> i \<le> e"
  by (auto simp: match_at_def split: list.splits)

lemma match_at_advance: "match_at pat s i True = Some e \<Longrightarrow> i < e"
proof -
  assume a: "match_at pat s i True = Some e"
  then obtain n ns
    where f: "filter (\<lambda>n. i + n \<le> length s \<and> n \<noteq> 0) (pat s i) = n # ns" and e: "e = i + n"
    by (auto simp: match_at_def split: list.splits)
  from f have "n \<in> set (filter (\<lambda>n. i + n \<le> length s \<and> n \<noteq> 0) (pat s i))" by simp
  then have "n \<noteq> 0" by simp
  with e show ?thesis by simp
qed

lemma match_at_le: "match_at pat s i adv = Some e \<Longrightarrow> e \<le> length s"
proof -
  assume a: "match_at pat s i adv = Some e"
  then obtain n ns
    where f: "filter (\<lambda>n. i + n \<le> length s \<and> \<not> (adv \<and> n = 0)) (pat s i) = n # ns"
      and e: "e = i + n"
    by (auto simp: match_at_def split: list.splits)
  from f have "n \<in> set (filter (\<lambda>n. i + n \<le> length s \<and> \<not> (adv \<and> n = 0)) (pat s i))"
    by simp
  with e show ?thesis by simp
qed

lemma search_span:
  "search pat s start adv = Some (i, e) \<Longrightarrow> start \<le> i \<and> i \<le> e \<and> e \<le> length s"
proof (induction pat s start adv rule: search.induct)
  case (1 pat s start must_advance)
  show ?case
  proof (cases "length s < start")
    case True
    with "1.prems" show ?thesis by (simp add: search.simps)
  next
    case False
    show ?thesis
    proof (cases "match_at pat s start must_advance")
      case None
      with False "1.prems" have "search pat s (Suc start) False = Some (i, e)"
        by (simp add: search.simps)
      with "1.IH" [OF False None] show ?thesis by simp
    next
      case (Some e')
      with False "1.prems" have "i = start" "e = e'"
        by (simp_all add: search.simps)
      with Some match_at_ge [of pat s start must_advance e']
        match_at_le [of pat s start must_advance e']
      show ?thesis by simp
    qed
  qed
qed

lemma search_advance:
  "search pat s start True = Some (i, e) \<Longrightarrow> start < e"
proof -
  assume a: "search pat s start True = Some (i, e)"
  show ?thesis
  proof (cases "match_at pat s start True")
    case None
    with a have "search pat s (Suc start) False = Some (i, e)"
      by (simp add: search.simps split: if_splits)
    from search_span [OF this] show ?thesis by simp
  next
    case (Some e')
    with a have "e = e'" by (simp add: search.simps split: if_splits)
    with Some match_at_advance show ?thesis by simp
  qed
qed

lemma search_progress:
  assumes m: "search pat s pos adv = Some (i, e)"
  shows "2 * (Suc (length s) - e) + (if e = i then 0 else 1)
         < 2 * (Suc (length s) - pos) + (if adv then 0 else 1)"
proof -
  from search_span [OF m] have sp: "pos \<le> i" "i \<le> e" "e \<le> length s" by simp_all
  show ?thesis
  proof (cases "e = pos")
    case True
    with sp have ie: "i = e" by simp
    have "\<not> adv"
    proof
      assume "adv"
      with m search_advance [of pat s pos i e] True show False by simp
    qed
    with True ie show ?thesis by simp
  next
    case False
    with sp have "pos < e" by simp
    with sp show ?thesis by (auto split: if_splits)
  qed
qed

text \<open>
  \<open>regex.split(string)\<close> of a pattern without capturing groups, as the engine's
  loop: search from the end of the previous match, emit the segment before the
  match, continue after it; a match that was empty forces the next one to advance.
  The segment after the last match is emitted even when empty.
\<close>

function re_split_loop :: "pattern \<Rightarrow> string \<Rightarrow> nat \<Rightarrow> bool \<Rightarrow> string list" where
  "re_split_loop pat s pos must_advance =
     (case search pat s pos must_advance of
        None \<Rightarrow> [drop pos s]
      | Some (i, e) \<Rightarrow> take (i - pos) (drop pos s) # re_split_loop pat s e (e = i))"
  by pat_completeness auto
termination
proof (relation "measure (\<lambda>(pat, s, pos, must_advance).
                    2 * (Suc (length s) - pos) + (if must_advance then 0 else 1))",
       goal_cases)
  case 1
  show ?case by simp
next
  case (2 pat s pos must_advance x i e)
  then have "search pat s pos must_advance = Some (i, e)" by simp
  from search_progress [OF this] show ?case by simp
qed

declare re_split_loop.simps [simp del]

definition re_split :: "pattern \<Rightarrow> string \<Rightarrow> string list" where
  "re_split pat s = re_split_loop pat s 0 False"

text \<open>
  \<open>split_on_feat(artist)\<close>: the pieces between the matches of the host's pattern,
  each stripped.
\<close>

definition split_on_feat :: "pattern \<Rightarrow> string \<Rightarrow> string list" where
  "split_on_feat pat artist = map strip (re_split pat artist)"

text \<open>
  \<open>regex.finditer(string)\<close>: the spans of the matches that the same scan finds, left
  to right and without overlap. \<open>has_match\<close> is \<open>regex.search(string) is not None\<close>.
\<close>

function finditer_loop :: "pattern \<Rightarrow> string \<Rightarrow> nat \<Rightarrow> bool \<Rightarrow> (nat \<times> nat) list" where
  "finditer_loop pat s pos must_advance =
     (case search pat s pos must_advance of
        None \<Rightarrow> []
      | Some (i, e) \<Rightarrow> (i, e) # finditer_loop pat s e (e = i))"
  by pat_completeness auto
termination
proof (relation "measure (\<lambda>(pat, s, pos, must_advance).
                    2 * (Suc (length s) - pos) + (if must_advance then 0 else 1))",
       goal_cases)
  case 1
  show ?case by simp
next
  case (2 pat s pos must_advance x i e)
  then have "search pat s pos must_advance = Some (i, e)" by simp
  from search_progress [OF this] show ?case by simp
qed

declare finditer_loop.simps [simp del]

definition finditer :: "pattern \<Rightarrow> string \<Rightarrow> (nat \<times> nat) list" where
  "finditer pat s = finditer_loop pat s 0 False"

definition has_match :: "pattern \<Rightarrow> string \<Rightarrow> bool" where
  "has_match pat s = (search pat s 0 False \<noteq> None)"

subsection \<open>The host's pattern\<close>

text \<open>
  Modelled from the spec: \<open>plugins.feat_tokens()\<close> belongs to the host and is not
  among the sources. The spec describes it as a case-insensitive regular expression
  that enumerates the accepted conjunction tokens, such as "feat.", "featuring", "ft."
  and "with". The instance below is the host's expression for artist fields,
  \<^verbatim>\<open>(?<=\s)(?:ft|featuring|feat|feat\.|ft\.|with|vs|and|con|&)(?=\s)\<close>:
  one of the words, in this order of preference, with a whitespace character right
  before it and right after it, letters compared without regard to case.
\<close>

definition feat_words :: "string list" where
  "feat_words =
     [''ft'', ''featuring'', ''feat'', ''feat.'', ''ft.'', ''with'', ''vs'', ''and'', ''con'', ''&'']"

definition lower :: "char \<Rightarrow> char" where
  "lower c =
     (case map_of (zip ''ABCDEFGHIJKLMNOPQRSTUVWXYZ'' ''abcdefghijklmnopqrstuvwxyz'') c of
        None \<Rightarrow> c
      | Some d \<Rightarrow> d)"

definition feat_tokens :: pattern where
  "feat_tokens s i =
     (if 0 < i \<and> i \<le> length s \<and> isspace (s ! (i - 1)) then
        map length
          (filter (\<lambda>w. map lower (take (length w) (drop i s)) = w \<and>
                       i + length w < length s \<and> isspace (s ! (i + length w)))
             feat_words)
      else [])"

subsection \<open>Separators and matches of the host's pattern\<close>




section \<open>Items and the field normalizer\<close>

text \<open>The three text fields of a library item that the plugin reads and writes.\<close>

record item =
  artist :: string
  albumartist :: string
  artist_sort :: string

text \<open>
  What the plugin does to its host, in the order in which it does it: a call of
  \<open>self._log.info\<close> with its format and arguments, \<open>item.store()\<close> and
  \<open>item.try_write()\<close>, the last two with the item as it is at the call.
\<close>

datatype event = Info string "string list" | Store item | Try_write item

text \<open>
  \<open>ft_separate(item, separator, convert_album_artist, convert_sort_artist)\<close> is
  three blocks that run one after the other on the same item. Each block is given
  the item and the log calls made so far and returns both as it leaves them. The
  first block handles the artist.
\<close>

definition separate_artist ::
  "pattern \<Rightarrow> item \<Rightarrow> event list \<Rightarrow> string \<Rightarrow> item \<times> event list" where
  "separate_artist pat item0 log separator =
     (let artist' = strip (artist item0);
          artist_list = str_join separator (split_on_feat pat artist')
      in if artist_list \<noteq> artist'
         then (item0\<lparr>artist := artist_list\<rparr>,
               log @ [Info ''artist: {0} -> {1}'' [artist item0, artist_list]])
         else (item0, log))"

text \<open>The second block: the album artist, when the flag is set and the field not empty.\<close>

definition separate_albumartist ::
  "pattern \<Rightarrow> item \<Rightarrow> event list \<Rightarrow> string \<Rightarrow> bool \<Rightarrow> item \<times> event list" where
  "separate_albumartist pat item0 log separator convert_album_artist =
     (if convert_album_artist \<and> albumartist item0 \<noteq> [] then
        (let albumartist' = strip (albumartist item0);
             albumartist_list = str_join separator (split_on_feat pat albumartist')
         in if albumartist_list \<noteq> albumartist'
            then (item0\<lparr>albumartist := albumartist_list\<rparr>,
                  log @ [Info ''albumartist: {0} -> {1}'' [albumartist item0, albumartist_list]])
            else (item0, log))
      else (item0, log))"

text \<open>The third block: the sort artist, when the flag is set and the field not empty.\<close>

definition separate_artist_sort ::
  "pattern \<Rightarrow> item \<Rightarrow> event list \<Rightarrow> string \<Rightarrow> bool \<Rightarrow> item \<times> event list" where
  "separate_artist_sort pat item0 log separator convert_sort_artist =
     (if convert_sort_artist \<and> artist_sort item0 \<noteq> [] then
        (let artist_sort' = strip (artist_sort item0);
             artist_sort_list = str_join separator (split_on_feat pat artist_sort')
         in if artist_sort_list \<noteq> artist_sort'
            then (item0\<lparr>artist_sort := artist_sort_list\<rparr>,
                  log @ [Info ''artist_sort: {0} -> {1}'' [artist_sort item0, artist_sort_list]])
            else (item0, log))
      else (item0, log))"

text \<open>The whole function: the item after the call and the log calls it made.\<close>

definition ft_separate ::
  "pattern \<Rightarrow> item \<Rightarrow> string \<Rightarrow> bool \<Rightarrow> bool \<Rightarrow> item \<times> event list" where
  "ft_separate pat item0 separator convert_album_artist convert_sort_artist =
     (let (item1, log1) = separate_artist pat item0 [] separator;
          (item2, log2) = separate_albumartist pat item1 log1 separator convert_album_artist
      in separate_artist_sort pat item2 log2 separator convert_sort_artist)"

section \<open>Configuration, command line and the two entry points\<close>

text \<open>
  One configuration source: for each of the plugin's four keys, the value the source
  gives it, if any. The plugin's view of the configuration is the list of its
  sources, highest priority first: \<open>config.add\<close> puts a source last, \<open>config.set\<close>
  first, and \<open>config[key].get()\<close> takes the first source that has the key
  (\<open>None\<close> stands for the host's "not found" error).
\<close>

record settings =
  s_auto :: "bool option"
  s_separator :: "string option"
  s_convert_album_artist :: "bool option"
  s_convert_sort_artist :: "bool option"

type_synonym config = "settings list"

definition config_add :: "config \<Rightarrow> settings \<Rightarrow> config" where
  "config_add cfg d = cfg @ [d]"

definition config_set :: "config \<Rightarrow> settings \<Rightarrow> config" where
  "config_set cfg d = d # cfg"

definition config_get :: "(settings \<Rightarrow> 'a option) \<Rightarrow> config \<Rightarrow> 'a option" where
  "config_get key cfg = (case List.map_filter key cfg of [] \<Rightarrow> None | v # _ \<Rightarrow> Some v)"

text \<open>The defaults that \<open>__init__\<close> adds.\<close>

definition plugin_defaults :: settings where
  "plugin_defaults =
     \<lparr>s_auto = Some True, s_separator = Some ''; '',
      s_convert_album_artist = Some False, s_convert_sort_artist = Some False\<rparr>"

text \<open>
  The command line of the subcommand: the argument of \<open>-s\<close> when the flag is given,
  and whether \<open>-a\<close> and \<open>-r\<close> are given. \<open>parse_args\<close> is the option parser with the
  three options as \<open>__init__\<close> declares them: \<open>-s\<close> stores its argument and has the
  default \<open>"; "\<close>; \<open>-a\<close> and \<open>-r\<close> store \<open>True\<close> and have the default \<open>None\<close>.
  \<open>config.set_args(opts)\<close> sets the options that are not \<open>None\<close>.
\<close>

record cmdline =
  opt_s :: "string option"
  opt_a :: bool
  opt_r :: bool

definition parse_args :: "cmdline \<Rightarrow> settings" where
  "parse_args argv =
     \<lparr>s_auto = None,
      s_separator = Some (case opt_s argv of None \<Rightarrow> ''; '' | Some v \<Rightarrow> v),
      s_convert_album_artist = (if opt_a argv then Some True else None),
      s_convert_sort_artist = (if opt_r argv then Some True else None)\<rparr>"

definition set_args :: "config \<Rightarrow> settings \<Rightarrow> config" where
  "set_args cfg opts = config_set cfg opts"

text \<open>
  The plugin object: its configuration view and the import stages it has registered
  (\<open>Imported\<close> stands for the bound method \<open>self.imported\<close>). \<open>init user\<close> is
  \<open>__init__\<close> when the user's configuration of the plugin is \<open>user\<close>.
\<close>

datatype stage = Imported

record plugin =
  config :: config
  import_stages :: "stage list"

definition init :: "settings \<Rightarrow> plugin" where
  "init user =
     (let cfg = config_add [user] plugin_defaults
      in \<lparr>config = cfg,
          import_stages = (if config_get s_auto cfg = Some True then [Imported] else [])\<rparr>)"

text \<open>
  The loop of the command's \<open>func\<close> over the items that the query resolves to: each
  item is separated, stored and, when the host's write setting is on, written. The
  result is the items after the loop and everything done to the host, in order.
\<close>

fun func_loop ::
  "pattern \<Rightarrow> string \<Rightarrow> bool \<Rightarrow> bool \<Rightarrow> bool \<Rightarrow> item list \<Rightarrow> item list \<times> event list" where
  "func_loop pat separator album sort' write [] = ([], [])"
| "func_loop pat separator album sort' write (item0 # rest) =
     (let (item1, log) = ft_separate pat item0 separator album sort';
          evs = log @ [Store item1] @ (if write then [Try_write item1] else []);
          (rest', evs') = func_loop pat separator album sort' write rest
      in (item1 # rest', evs @ evs'))"

text \<open>
  \<open>func(lib, opts, args)\<close>: \<open>write\<close> is \<open>ui.should_write()\<close> and \<open>items\<close> is
  \<open>lib.items(ui.decargs(args))\<close>. The plugin is returned too, since \<open>set_args\<close>
  changes its configuration.
\<close>

definition func ::
  "pattern \<Rightarrow> plugin \<Rightarrow> bool \<Rightarrow> item list \<Rightarrow> settings
     \<Rightarrow> (plugin \<times> item list \<times> event list) option" where
  "func pat self write items opts =
     (let cfg = set_args (config self) opts in
      case config_get s_separator cfg of
        None \<Rightarrow> None
      | Some separator \<Rightarrow>
     (case config_get s_convert_album_artist cfg of
        None \<Rightarrow> None
      | Some album \<Rightarrow>
     (case config_get s_convert_sort_artist cfg of
        None \<Rightarrow> None
      | Some sort' \<Rightarrow>
          (let (items', evs) = func_loop pat separator album sort' write items
           in Some (self\<lparr>config := cfg\<rparr>, items', evs)))))"

text \<open>The loop of the import hook: separate and store, nothing else.\<close>

fun imported_loop ::
  "pattern \<Rightarrow> string \<Rightarrow> bool \<Rightarrow> bool \<Rightarrow> item list \<Rightarrow> item list \<times> event list" where
  "imported_loop pat separator album sort' [] = ([], [])"
| "imported_loop pat separator album sort' (item0 # rest) =
     (let (item1, log) = ft_separate pat item0 separator album sort';
          evs = log @ [Store item1];
          (rest', evs') = imported_loop pat separator album sort' rest
      in (item1 # rest', evs @ evs'))"

text \<open>\<open>imported(session, task)\<close>: \<open>items\<close> is \<open>task.imported_items()\<close>.\<close>

definition imported :: "pattern \<Rightarrow> plugin \<Rightarrow> item list \<Rightarrow> (item list \<times> event list) option" where
  "imported pat self items =
     (case config_get s_separator (config self) of
        None \<Rightarrow> None
      | Some separator \<Rightarrow>
     (case config_get s_convert_album_artist (config self) of
        None \<Rightarrow> None
      | Some album \<Rightarrow>
     (case config_get s_convert_sort_artist (config self) of
        None \<Rightarrow> None
      | Some sort' \<Rightarrow> Some (imported_loop pat separator album sort' items))))"

section \<open>The tokenizer\<close>

lemma re_split_no_match: "\<not> has_match pat s \<Longrightarrow> re_split pat s = [s]"
proof -
  assume "\<not> has_match pat s"
  then have "search pat s 0 False = None" unfolding has_match_def by blast
  then show ?thesis by (simp add: re_split_def re_split_loop.simps)
qed

lemma split_on_feat_no_match: "\<not> has_match pat s \<Longrightarrow> split_on_feat pat s = [strip s]"
  by (simp add: split_on_feat_def re_split_no_match)

lemma re_split_loop_nonempty: "re_split_loop pat s pos adv \<noteq> []"
  by (subst re_split_loop.simps) (simp split: option.splits prod.splits)

lemma dropWhile_rev_dropWhile:
  assumes "t = [] \<or> \<not> P (hd t)"
  shows "dropWhile P (rev (dropWhile P (rev t))) = rev (dropWhile P (rev t))"
proof (cases "rev (dropWhile P (rev t))")
  case Nil
  show ?thesis unfolding Nil by simp
next
  case (Cons c cs)
  have "rev (dropWhile P (rev t)) @ rev (takeWhile P (rev t)) = t"
    by (metis rev_append rev_rev_ident takeWhile_dropWhile_id)
  with Cons have "t = c # (cs @ rev (takeWhile P (rev t)))" by simp
  then have "hd t = c" "t \<noteq> []" by (metis list.sel(1), metis list.distinct(1))
  with assms have "\<not> P c" by simp
  with Cons show ?thesis by simp
qed

lemma strip_strip: "strip (strip s) = strip s"
proof -
  let ?t = "dropWhile isspace s"
  have "?t = [] \<or> \<not> isspace (hd ?t)" by (metis hd_dropWhile)
  then have "dropWhile isspace (rev (dropWhile isspace (rev ?t))) = rev (dropWhile isspace (rev ?t))"
    by (rule dropWhile_rev_dropWhile)
  then show ?thesis
    by (simp add: strip_def)
qed

text \<open>
  Claim C2. When the conjunction pattern has no match in a string, joining the parts
  that \<open>split_on_feat\<close> returns for it, with any separator, gives the stripped
  string.
\<close>

theorem split_join_no_match:
  "\<not> has_match pat s \<Longrightarrow> str_join sep (split_on_feat pat s) = strip s"
  by (simp add: split_on_feat_no_match)

theorem split_join_no_match_witness:
  "\<not> has_match feat_tokens '' Solo Artist  '' \<and>
   str_join ''; '' (split_on_feat feat_tokens '' Solo Artist  '') = ''Solo Artist''"
proof -
  have h: "\<not> has_match feat_tokens '' Solo Artist  ''" by code_simp
  have e: "strip '' Solo Artist  '' = ''Solo Artist''" by code_simp
  from split_join_no_match [OF h, of "''; ''"] h e show ?thesis by simp
qed

text \<open>
  Claim C3. \<open>split_on_feat\<close> returns at least one part for every string and every
  pattern; for the empty string, under the host's pattern, it returns the empty
  string alone; and when the pattern has no match it returns the stripped input
  alone.
\<close>

theorem split_on_feat_length:
  "1 \<le> length (split_on_feat pat s) \<and>
   split_on_feat feat_tokens [] = [[]] \<and>
   (\<not> has_match pat s \<longrightarrow> split_on_feat pat s = [strip s])"
proof (intro conjI impI)
  have "re_split pat s \<noteq> []" by (simp add: re_split_def re_split_loop_nonempty)
  then show "1 \<le> length (split_on_feat pat s)"
    by (cases "re_split pat s") (simp_all add: split_on_feat_def)
next
  show "split_on_feat feat_tokens [] = [[]]" by code_simp
next
  assume "\<not> has_match pat s"
  then show "split_on_feat pat s = [strip s]" by (rule split_on_feat_no_match)
qed

theorem split_on_feat_length_witness:
  "1 \<le> length (split_on_feat feat_tokens ''Solo Artist'') \<and>
   \<not> has_match feat_tokens ''Solo Artist'' \<and>
   split_on_feat feat_tokens ''Solo Artist'' = [''Solo Artist'']"
proof -
  have h: "\<not> has_match feat_tokens ''Solo Artist''" by code_simp
  have e: "strip ''Solo Artist'' = ''Solo Artist''" by code_simp
  from split_on_feat_length [of feat_tokens "''Solo Artist''"] h e show ?thesis by simp
qed

lemma finditer_single:
  assumes "finditer pat s = [(i, e)]"
  shows "search pat s 0 False = Some (i, e)" and "search pat s e (e = i) = None"
proof -
  from assms have a: "finditer_loop pat s 0 False = [(i, e)]" by (simp add: finditer_def)
  then show m: "search pat s 0 False = Some (i, e)"
    by (subst (asm) finditer_loop.simps) (auto split: option.splits)
  with a have "finditer_loop pat s e (e = i) = []"
    by (subst (asm) finditer_loop.simps) simp
  then show "search pat s e (e = i) = None"
    by (subst (asm) finditer_loop.simps) (auto split: option.splits)
qed

lemma re_split_single:
  assumes "finditer pat s = [(i, e)]"
  shows "re_split pat s = [take i s, drop e s]"
proof -
  note f = finditer_single [OF assms]
  have "re_split_loop pat s e (e = i) = [drop e s]"
    using f(2) by (subst re_split_loop.simps) simp
  then show ?thesis
    using f(1) by (simp add: re_split_def) (subst re_split_loop.simps, simp)
qed

text \<open>
  Claim C4. When the scan finds exactly one match of the pattern in \<open>s\<close>, from index
  \<open>i\<close> up to index \<open>e\<close>, joining the parts of \<open>split_on_feat\<close> with a separator gives
  the stripped text before the match, the separator, and the stripped text after the
  match.
\<close>

theorem split_join_one_match:
  "finditer pat s = [(i, e)] \<Longrightarrow>
   str_join sep (split_on_feat pat s) = strip (take i s) @ sep @ strip (drop e s)"
  by (simp add: split_on_feat_def re_split_single)

theorem split_join_one_match_witness:
  "finditer feat_tokens ''Artist A feat. Artist B'' = [(9, 14)] \<and>
   str_join ''; '' (split_on_feat feat_tokens ''Artist A feat. Artist B'') = ''Artist A; Artist B''"
proof -
  have h: "finditer feat_tokens ''Artist A feat. Artist B'' = [(9, 14)]" by code_simp
  have e: "strip (take 9 ''Artist A feat. Artist B'') @ ''; '' @ strip (drop 14 ''Artist A feat. Artist B'') = ''Artist A; Artist B''" by code_simp
  from split_join_one_match [OF h, of "''; ''"] h e show ?thesis by simp
qed

text \<open>
  For the host's pattern, a match in the stripped string is a match in the string:
  the words and the whitespace around them are found again, shifted by the length of
  the whitespace that \<open>strip\<close> removed in front.
\<close>

lemma strip_decomp: "\<exists>pre post. s = pre @ strip s @ post"
proof -
  let ?t = "dropWhile isspace s"
  have "rev (dropWhile isspace (rev ?t)) @ rev (takeWhile isspace (rev ?t)) = ?t"
    by (metis rev_append rev_rev_ident takeWhile_dropWhile_id)
  then have "s = takeWhile isspace s @ strip s @ rev (takeWhile isspace (rev ?t))"
    by (simp add: strip_def)
  then show ?thesis by blast
qed

lemma feat_tokens_embed:
  assumes "feat_tokens t i \<noteq> []"
  shows "\<exists>n \<in> set (feat_tokens (pre @ t @ post) (length pre + i)).
           length pre + i + n \<le> length (pre @ t @ post)"
proof -
  from assms have c: "0 < i" "i \<le> length t" "isspace (t ! (i - 1))"
    by (auto simp: feat_tokens_def split: if_splits)
  from assms c obtain w where w: "w \<in> set feat_words"
      "map lower (take (length w) (drop i t)) = w"
      "i + length w < length t" "isspace (t ! (i + length w))"
    by (auto simp: feat_tokens_def filter_empty_conv)
  let ?s = "pre @ t @ post" and ?j = "length pre + i"
  from c have i1: "i - 1 < length t" by simp
  from c have "?j - 1 = length pre + (i - 1)" by simp
  then have "?s ! (?j - 1) = (t @ post) ! (i - 1)"
    by (simp only: nth_append_length_plus)
  also from i1 have "\<dots> = t ! (i - 1)" by (rule nth_append_left)
  finally have b: "?s ! (?j - 1) = t ! (i - 1)" .
  have "?s ! (?j + length w) = (t @ post) ! (i + length w)"
    by (simp only: add.assoc nth_append_length_plus)
  also from w(3) have "\<dots> = t ! (i + length w)" by (rule nth_append_left)
  finally have a: "?s ! (?j + length w) = t ! (i + length w)" .
  from w(3) have d: "take (length w) (drop ?j ?s) = take (length w) (drop i t)"
    by simp
  let ?ok = "\<lambda>w. map lower (take (length w) (drop ?j ?s)) = w \<and>
                 ?j + length w < length ?s \<and> isspace (?s ! (?j + length w))"
  from w a d have "?ok w" by simp
  with w(1) have "w \<in> set (filter ?ok feat_words)" by simp
  then have m: "length w \<in> length ` set (filter ?ok feat_words)" by (rule imageI)
  from c b have "0 < ?j \<and> ?j \<le> length ?s \<and> isspace (?s ! (?j - 1))" by simp
  then have "feat_tokens ?s ?j = map length (filter ?ok feat_words)"
    unfolding feat_tokens_def by (rule if_P)
  with m have "length w \<in> set (feat_tokens ?s ?j)" by simp
  with w(3) show ?thesis by (intro bexI [of _ "length w"]) simp_all
qed

lemma match_at_Some_nonempty: "match_at pat s i adv = Some e \<Longrightarrow> pat s i \<noteq> []"
  by (auto simp: match_at_def split: list.splits)

lemma search_Some_nonempty: "search pat s start adv = Some (i, e) \<Longrightarrow> pat s i \<noteq> []"
proof (induction pat s start adv rule: search.induct)
  case (1 pat s start must_advance)
  show ?case
  proof (cases "match_at pat s start must_advance")
    case None
    with "1.prems" have l: "\<not> length s < start" and "search pat s (Suc start) False = Some (i, e)"
      by (simp_all add: search.simps split: if_splits)
    with "1.IH" [OF l None] show ?thesis by simp
  next
    case (Some e')
    with "1.prems" have "i = start"
      by (simp add: search.simps split: if_splits)
    with Some match_at_Some_nonempty show ?thesis by simp
  qed
qed

lemma match_at_in_range:
  "\<exists>n \<in> set (pat s j). j + n \<le> length s \<Longrightarrow> match_at pat s j False \<noteq> None"
  by (auto simp: match_at_def filter_empty_conv split: list.splits)

lemma search_finds:
  "start \<le> j \<Longrightarrow> j \<le> length s \<Longrightarrow> match_at pat s j False \<noteq> None \<Longrightarrow>
   search pat s start False \<noteq> None"
proof (induction "j - start" arbitrary: start)
  case 0
  then have "start = j" by simp
  with 0 show ?case by (subst search.simps) auto
next
  case (Suc d)
  then have "d = j - Suc start" "Suc start \<le> j" by simp_all
  from Suc.hyps(1) [OF this Suc.prems(2,3)] Suc.prems show ?case
    by (subst search.simps) (auto split: option.splits)
qed

lemma feat_tokens_strip: "has_match feat_tokens (strip s) \<Longrightarrow> has_match feat_tokens s"
proof -
  assume "has_match feat_tokens (strip s)"
  then obtain i e where "search feat_tokens (strip s) 0 False = Some (i, e)"
    by (auto simp: has_match_def)
  then have ne: "feat_tokens (strip s) i \<noteq> []" by (rule search_Some_nonempty)
  obtain pre post where s: "s = pre @ strip s @ post" using strip_decomp by blast
  from feat_tokens_embed [OF ne, of pre post]
  have "\<exists>n \<in> set (feat_tokens s (length pre + i)). length pre + i + n \<le> length s"
    using s by simp
  then have m: "match_at feat_tokens s (length pre + i) False \<noteq> None"
    by (rule match_at_in_range)
  have "length pre + i \<le> length s"
    using \<open>\<exists>n \<in> set (feat_tokens s (length pre + i)). length pre + i + n \<le> length s\<close> by auto
  with m have "search feat_tokens s 0 False \<noteq> None"
    by (intro search_finds [of 0 "length pre + i"]) simp_all
  then show ?thesis by (simp add: has_match_def)
qed





























section \<open>The field normalizer\<close>

text \<open>
  The value that \<open>ft_separate\<close> computes for a field whose value is \<open>v\<close>: the
  value is stripped, split and joined again with the separator.
\<close>

definition rejoined :: "pattern \<Rightarrow> string \<Rightarrow> string \<Rightarrow> string" where
  "rejoined pat separator v = str_join separator (split_on_feat pat (strip v))"

lemma separate_artist_eq:
  "separate_artist pat it log sep =
     (it\<lparr>artist :=
           (if rejoined pat sep (artist it) \<noteq> strip (artist it)
            then rejoined pat sep (artist it) else artist it)\<rparr>,
      log @ (if rejoined pat sep (artist it) \<noteq> strip (artist it)
             then [Info ''artist: {0} -> {1}'' [artist it, rejoined pat sep (artist it)]]
             else []))"
  by (simp add: separate_artist_def rejoined_def Let_def)

lemma separate_albumartist_eq:
  "separate_albumartist pat it log sep ca =
     (it\<lparr>albumartist :=
           (if ca \<and> albumartist it \<noteq> [] \<and>
               rejoined pat sep (albumartist it) \<noteq> strip (albumartist it)
            then rejoined pat sep (albumartist it) else albumartist it)\<rparr>,
      log @ (if ca \<and> albumartist it \<noteq> [] \<and>
                rejoined pat sep (albumartist it) \<noteq> strip (albumartist it)
             then [Info ''albumartist: {0} -> {1}''
                     [albumartist it, rejoined pat sep (albumartist it)]]
             else []))"
  by (simp add: separate_albumartist_def rejoined_def Let_def)

lemma separate_artist_sort_eq:
  "separate_artist_sort pat it log sep cs =
     (it\<lparr>artist_sort :=
           (if cs \<and> artist_sort it \<noteq> [] \<and>
               rejoined pat sep (artist_sort it) \<noteq> strip (artist_sort it)
            then rejoined pat sep (artist_sort it) else artist_sort it)\<rparr>,
      log @ (if cs \<and> artist_sort it \<noteq> [] \<and>
                rejoined pat sep (artist_sort it) \<noteq> strip (artist_sort it)
             then [Info ''artist_sort: {0} -> {1}''
                     [artist_sort it, rejoined pat sep (artist_sort it)]]
             else []))"
  by (simp add: separate_artist_sort_def rejoined_def Let_def)

lemma ft_separate_eq:
  "ft_separate pat it sep ca cs =
     separate_artist_sort pat
       (fst (separate_albumartist pat (fst (separate_artist pat it [] sep))
               (snd (separate_artist pat it [] sep)) sep ca))
       (snd (separate_albumartist pat (fst (separate_artist pat it [] sep))
               (snd (separate_artist pat it [] sep)) sep ca))
       sep cs"
  by (simp add: ft_separate_def split_beta)

lemma ft_separate_fields:
  "fst (ft_separate pat it sep ca cs) =
     it\<lparr>artist :=
           (if rejoined pat sep (artist it) \<noteq> strip (artist it)
            then rejoined pat sep (artist it) else artist it),
        albumartist :=
           (if ca \<and> albumartist it \<noteq> [] \<and>
               rejoined pat sep (albumartist it) \<noteq> strip (albumartist it)
            then rejoined pat sep (albumartist it) else albumartist it),
        artist_sort :=
           (if cs \<and> artist_sort it \<noteq> [] \<and>
               rejoined pat sep (artist_sort it) \<noteq> strip (artist_sort it)
            then rejoined pat sep (artist_sort it) else artist_sort it)\<rparr>"
  unfolding ft_separate_eq
  by (simp only: separate_artist_eq separate_albumartist_eq separate_artist_sort_eq
        fst_conv snd_conv) simp

lemma ft_separate_artist:
  "artist (fst (ft_separate pat it sep ca cs)) =
     (if rejoined pat sep (artist it) \<noteq> strip (artist it)
      then rejoined pat sep (artist it) else artist it)"
  by (simp add: ft_separate_fields)

lemma ft_separate_albumartist:
  "albumartist (fst (ft_separate pat it sep ca cs)) =
     (if ca \<and> albumartist it \<noteq> [] \<and>
         rejoined pat sep (albumartist it) \<noteq> strip (albumartist it)
      then rejoined pat sep (albumartist it) else albumartist it)"
  by (simp add: ft_separate_fields)

lemma ft_separate_artist_sort:
  "artist_sort (fst (ft_separate pat it sep ca cs)) =
     (if cs \<and> artist_sort it \<noteq> [] \<and>
         rejoined pat sep (artist_sort it) \<noteq> strip (artist_sort it)
      then rejoined pat sep (artist_sort it) else artist_sort it)"
  by (simp add: ft_separate_fields)

lemma ft_separate_log:
  "snd (ft_separate pat it sep ca cs) =
     (if rejoined pat sep (artist it) \<noteq> strip (artist it)
      then [Info ''artist: {0} -> {1}'' [artist it, rejoined pat sep (artist it)]] else []) @
     (if ca \<and> albumartist it \<noteq> [] \<and>
         rejoined pat sep (albumartist it) \<noteq> strip (albumartist it)
      then [Info ''albumartist: {0} -> {1}'' [albumartist it, rejoined pat sep (albumartist it)]]
      else []) @
     (if cs \<and> artist_sort it \<noteq> [] \<and>
         rejoined pat sep (artist_sort it) \<noteq> strip (artist_sort it)
      then [Info ''artist_sort: {0} -> {1}'' [artist_sort it, rejoined pat sep (artist_sort it)]]
      else [])"
  unfolding ft_separate_eq
  by (simp only: separate_artist_eq separate_albumartist_eq separate_artist_sort_eq
        fst_conv snd_conv) simp

lemma rejoined_no_match: "\<not> has_match pat (strip v) \<Longrightarrow> rejoined pat sep v = strip v"
  by (simp add: rejoined_def split_on_feat_no_match strip_strip)

text \<open>
  Claim C5. For every item, \<open>ft_separate\<close> overwrites a processed field with its
  rejoined value exactly when that value differs from the stripped field, and leaves
  it as it is otherwise; the log calls it makes are exactly one per overwritten field,
  with the old and the new value, in the order artist, album artist, sort artist. The
  artist is always processed, the album artist and the sort artist when their flag is
  set and the field is not empty. In particular an artist whose stripped value has no
  match of the pattern is not written and not logged; under the host's pattern the
  same holds for an artist whose value as it stands has no match.
\<close>

theorem ft_separate_rewrites_iff_differs:
  assumes "ft_separate pat it sep ca cs = (it', log)"
  shows
   "artist it' =
      (if rejoined pat sep (artist it) \<noteq> strip (artist it)
       then rejoined pat sep (artist it) else artist it) \<and>
    (ca \<and> albumartist it \<noteq> [] \<longrightarrow>
       albumartist it' =
         (if rejoined pat sep (albumartist it) \<noteq> strip (albumartist it)
          then rejoined pat sep (albumartist it) else albumartist it)) \<and>
    (cs \<and> artist_sort it \<noteq> [] \<longrightarrow>
       artist_sort it' =
         (if rejoined pat sep (artist_sort it) \<noteq> strip (artist_sort it)
          then rejoined pat sep (artist_sort it) else artist_sort it)) \<and>
    log =
      (if rejoined pat sep (artist it) \<noteq> strip (artist it)
       then [Info ''artist: {0} -> {1}'' [artist it, rejoined pat sep (artist it)]] else []) @
      (if ca \<and> albumartist it \<noteq> [] \<and>
          rejoined pat sep (albumartist it) \<noteq> strip (albumartist it)
       then [Info ''albumartist: {0} -> {1}''
               [albumartist it, rejoined pat sep (albumartist it)]]
       else []) @
      (if cs \<and> artist_sort it \<noteq> [] \<and>
          rejoined pat sep (artist_sort it) \<noteq> strip (artist_sort it)
       then [Info ''artist_sort: {0} -> {1}''
               [artist_sort it, rejoined pat sep (artist_sort it)]]
       else []) \<and>
    (\<not> has_match pat (strip (artist it)) \<longrightarrow>
       artist it' = artist it \<and> (\<forall>args. Info ''artist: {0} -> {1}'' args \<notin> set log)) \<and>
    (pat = feat_tokens \<and> \<not> has_match pat (artist it) \<longrightarrow>
       artist it' = artist it \<and> (\<forall>args. Info ''artist: {0} -> {1}'' args \<notin> set log))"
proof -
  from assms have f: "it' = fst (ft_separate pat it sep ca cs)"
    and l: "log = snd (ft_separate pat it sep ca cs)" by simp_all
  have a: "artist it' =
      (if rejoined pat sep (artist it) \<noteq> strip (artist it)
       then rejoined pat sep (artist it) else artist it)"
    unfolding f ft_separate_fields by simp
  have b: "ca \<and> albumartist it \<noteq> [] \<longrightarrow>
       albumartist it' =
         (if rejoined pat sep (albumartist it) \<noteq> strip (albumartist it)
          then rejoined pat sep (albumartist it) else albumartist it)"
    unfolding f ft_separate_fields by simp
  have c: "cs \<and> artist_sort it \<noteq> [] \<longrightarrow>
       artist_sort it' =
         (if rejoined pat sep (artist_sort it) \<noteq> strip (artist_sort it)
          then rejoined pat sep (artist_sort it) else artist_sort it)"
    unfolding f ft_separate_fields by simp
  note d = l [unfolded ft_separate_log]
  have e: "\<not> has_match pat (strip (artist it)) \<longrightarrow>
       artist it' = artist it \<and> (\<forall>args. Info ''artist: {0} -> {1}'' args \<notin> set log)"
  proof
    assume "\<not> has_match pat (strip (artist it))"
    then have "rejoined pat sep (artist it) = strip (artist it)" by (rule rejoined_no_match)
    with a d show "artist it' = artist it \<and> (\<forall>args. Info ''artist: {0} -> {1}'' args \<notin> set log)"
      by simp
  qed
  have g: "pat = feat_tokens \<and> \<not> has_match pat (artist it) \<longrightarrow>
       artist it' = artist it \<and> (\<forall>args. Info ''artist: {0} -> {1}'' args \<notin> set log)"
  proof
    assume "pat = feat_tokens \<and> \<not> has_match pat (artist it)"
    with feat_tokens_strip [of "artist it"] have "\<not> has_match pat (strip (artist it))" by blast
    with e show "artist it' = artist it \<and> (\<forall>args. Info ''artist: {0} -> {1}'' args \<notin> set log)"
      by blast
  qed
  from a b c d e g show ?thesis by blast
qed

theorem ft_separate_rewrites_iff_differs_witness:
  "ft_separate feat_tokens
     \<lparr>artist = '' Solo Artist'', albumartist = ''Artist A feat. Artist B'',
      artist_sort = ''Artist, Solo''\<rparr>
     ''; '' True True =
     (\<lparr>artist = '' Solo Artist'', albumartist = ''Artist A; Artist B'',
       artist_sort = ''Artist, Solo''\<rparr>,
      [Info ''albumartist: {0} -> {1}'' [''Artist A feat. Artist B'', ''Artist A; Artist B'']]) \<and>
   \<not> has_match feat_tokens '' Solo Artist'' \<and>
   \<not> has_match feat_tokens (strip '' Solo Artist'') \<and>
   rejoined feat_tokens ''; '' '' Solo Artist'' = strip '' Solo Artist'' \<and>
   rejoined feat_tokens ''; '' ''Artist A feat. Artist B'' \<noteq> strip ''Artist A feat. Artist B'' \<and>
   rejoined feat_tokens ''; '' ''Artist, Solo'' = strip ''Artist, Solo''"
proof -
  let ?it = "\<lparr>artist = '' Solo Artist'', albumartist = ''Artist A feat. Artist B'',
              artist_sort = ''Artist, Solo''\<rparr>"
  let ?it' = "\<lparr>artist = '' Solo Artist'', albumartist = ''Artist A; Artist B'',
               artist_sort = ''Artist, Solo''\<rparr>"
  let ?log = "[Info ''albumartist: {0} -> {1}'' [''Artist A feat. Artist B'', ''Artist A; Artist B'']]"
  have h: "ft_separate feat_tokens ?it ''; '' True True = (?it', ?log)"
    by code_simp
  have n: "\<not> has_match feat_tokens '' Solo Artist''" by code_simp
  have s: "strip '' Solo Artist'' = ''Solo Artist''"
    "strip ''Artist A feat. Artist B'' = ''Artist A feat. Artist B''"
    "strip ''Artist, Solo'' = ''Artist, Solo''"
    by code_simp+
  have r: "rejoined feat_tokens ''; '' '' Solo Artist'' = ''Solo Artist''"
    "rejoined feat_tokens ''; '' ''Artist A feat. Artist B'' = ''Artist A; Artist B''"
    "rejoined feat_tokens ''; '' ''Artist, Solo'' = ''Artist, Solo''"
    by code_simp+
  from feat_tokens_strip [of "'' Solo Artist''"] n
  have n': "\<not> has_match feat_tokens (strip '' Solo Artist'')" by blast
  from ft_separate_rewrites_iff_differs [OF h] h n n' r s show ?thesis by simp
qed

text \<open>
  Claim C6. When \<open>convert_album_artist\<close> is false, or the album artist is empty,
  \<open>ft_separate\<close> leaves the album artist as it is and logs nothing for it; the same
  holds for the sort artist under \<open>convert_sort_artist\<close>. The new artist depends
  neither on the two optional fields nor on the two flags, and the new album artist
  and sort artist do not depend on the artist.
\<close>

theorem ft_separate_optional_fields_frame:
  assumes "ft_separate pat it sep ca cs = (it', log)"
  shows
   "(\<not> ca \<or> albumartist it = [] \<longrightarrow>
       albumartist it' = albumartist it \<and>
       (\<forall>args. Info ''albumartist: {0} -> {1}'' args \<notin> set log)) \<and>
    (\<not> cs \<or> artist_sort it = [] \<longrightarrow>
       artist_sort it' = artist_sort it \<and>
       (\<forall>args. Info ''artist_sort: {0} -> {1}'' args \<notin> set log)) \<and>
    (\<forall>x y ca' cs'.
       artist (fst (ft_separate pat (it\<lparr>albumartist := x, artist_sort := y\<rparr>) sep ca' cs'))
         = artist it') \<and>
    (\<forall>x. albumartist (fst (ft_separate pat (it\<lparr>artist := x\<rparr>) sep ca cs)) = albumartist it' \<and>
         artist_sort (fst (ft_separate pat (it\<lparr>artist := x\<rparr>) sep ca cs)) = artist_sort it')"
proof -
  from assms have f: "it' = fst (ft_separate pat it sep ca cs)"
    and l: "log = snd (ft_separate pat it sep ca cs)" by simp_all
  have a: "\<not> ca \<or> albumartist it = [] \<longrightarrow>
       albumartist it' = albumartist it \<and>
       (\<forall>args. Info ''albumartist: {0} -> {1}'' args \<notin> set log)"
    unfolding f l ft_separate_albumartist ft_separate_artist_sort ft_separate_log by auto
  have b: "\<not> cs \<or> artist_sort it = [] \<longrightarrow>
       artist_sort it' = artist_sort it \<and>
       (\<forall>args. Info ''artist_sort: {0} -> {1}'' args \<notin> set log)"
    unfolding f l ft_separate_albumartist ft_separate_artist_sort ft_separate_log by auto
  have c: "\<forall>x y ca' cs'.
       artist (fst (ft_separate pat (it\<lparr>albumartist := x, artist_sort := y\<rparr>) sep ca' cs'))
         = artist it'"
    unfolding f by (simp add: ft_separate_artist)
  have d: "\<forall>x. albumartist (fst (ft_separate pat (it\<lparr>artist := x\<rparr>) sep ca cs)) = albumartist it' \<and>
         artist_sort (fst (ft_separate pat (it\<lparr>artist := x\<rparr>) sep ca cs)) = artist_sort it'"
  proof (intro allI conjI)
    fix x
    show "albumartist (fst (ft_separate pat (it\<lparr>artist := x\<rparr>) sep ca cs)) = albumartist it'"
      unfolding f by (simp add: ft_separate_albumartist)
    show "artist_sort (fst (ft_separate pat (it\<lparr>artist := x\<rparr>) sep ca cs)) = artist_sort it'"
      unfolding f by (simp add: ft_separate_artist_sort)
  qed
  from a b c d show ?thesis by blast
qed

theorem ft_separate_optional_fields_frame_witness:
  "ft_separate feat_tokens
     \<lparr>artist = ''X ft. Y'', albumartist = ''X ft. Y'', artist_sort = []\<rparr> '' / '' False True =
     (\<lparr>artist = ''X / Y'', albumartist = ''X ft. Y'', artist_sort = []\<rparr>,
      [Info ''artist: {0} -> {1}'' [''X ft. Y'', ''X / Y'']]) \<and>
   artist (fst (ft_separate feat_tokens
     \<lparr>artist = ''X ft. Y'', albumartist = ''P & Q'', artist_sort = ''Q with P''\<rparr> '' / '' True True))
     = ''X / Y''"
proof -
  let ?it = "\<lparr>artist = ''X ft. Y'', albumartist = ''X ft. Y'', artist_sort = []\<rparr>"
  have h: "ft_separate feat_tokens ?it '' / '' False True =
     (\<lparr>artist = ''X / Y'', albumartist = ''X ft. Y'', artist_sort = []\<rparr>,
      [Info ''artist: {0} -> {1}'' [''X ft. Y'', ''X / Y'']])"
    by code_simp
  from ft_separate_optional_fields_frame [OF h] have
    "artist (fst (ft_separate feat_tokens (?it\<lparr>albumartist := ''P & Q'', artist_sort := ''Q with P''\<rparr>)
        '' / '' True True)) = artist \<lparr>artist = ''X / Y'', albumartist = ''X ft. Y'', artist_sort = []\<rparr>"
    by blast
  with h show ?thesis by simp
qed

text \<open>
  Claim C10. A field whose rejoined value equals its stripped value keeps its
  original value, surrounding whitespace included. After the call every field holds
  either its original value or the rejoined value, and the latter only when that
  differs from the stripped original: the stripped value alone is never written.
\<close>

theorem ft_separate_keeps_untrimmed:
  assumes "ft_separate pat it sep ca cs = (it', log)"
  shows
   "(rejoined pat sep (artist it) = strip (artist it) \<longrightarrow> artist it' = artist it) \<and>
    (rejoined pat sep (albumartist it) = strip (albumartist it) \<longrightarrow>
       albumartist it' = albumartist it) \<and>
    (rejoined pat sep (artist_sort it) = strip (artist_sort it) \<longrightarrow>
       artist_sort it' = artist_sort it) \<and>
    (artist it' = artist it \<or>
       artist it' = rejoined pat sep (artist it) \<and>
       rejoined pat sep (artist it) \<noteq> strip (artist it)) \<and>
    (albumartist it' = albumartist it \<or>
       albumartist it' = rejoined pat sep (albumartist it) \<and>
       rejoined pat sep (albumartist it) \<noteq> strip (albumartist it)) \<and>
    (artist_sort it' = artist_sort it \<or>
       artist_sort it' = rejoined pat sep (artist_sort it) \<and>
       rejoined pat sep (artist_sort it) \<noteq> strip (artist_sort it))"
proof -
  from assms have f: "it' = fst (ft_separate pat it sep ca cs)" by simp
  have a: "artist it' =
      (if rejoined pat sep (artist it) \<noteq> strip (artist it)
       then rejoined pat sep (artist it) else artist it)"
    unfolding f ft_separate_fields by simp
  have b: "albumartist it' =
      (if ca \<and> albumartist it \<noteq> [] \<and>
          rejoined pat sep (albumartist it) \<noteq> strip (albumartist it)
       then rejoined pat sep (albumartist it) else albumartist it)"
    unfolding f ft_separate_fields by simp
  have c: "artist_sort it' =
      (if cs \<and> artist_sort it \<noteq> [] \<and>
          rejoined pat sep (artist_sort it) \<noteq> strip (artist_sort it)
       then rejoined pat sep (artist_sort it) else artist_sort it)"
    unfolding f ft_separate_fields by simp
  from a have a': "(rejoined pat sep (artist it) = strip (artist it) \<longrightarrow> artist it' = artist it) \<and>
    (artist it' = artist it \<or>
       artist it' = rejoined pat sep (artist it) \<and>
       rejoined pat sep (artist it) \<noteq> strip (artist it))"
    by (simp split: if_splits)
  from b have b': "(rejoined pat sep (albumartist it) = strip (albumartist it) \<longrightarrow>
       albumartist it' = albumartist it) \<and>
    (albumartist it' = albumartist it \<or>
       albumartist it' = rejoined pat sep (albumartist it) \<and>
       rejoined pat sep (albumartist it) \<noteq> strip (albumartist it))"
    by (simp split: if_splits)
  from c have c': "(rejoined pat sep (artist_sort it) = strip (artist_sort it) \<longrightarrow>
       artist_sort it' = artist_sort it) \<and>
    (artist_sort it' = artist_sort it \<or>
       artist_sort it' = rejoined pat sep (artist_sort it) \<and>
       rejoined pat sep (artist_sort it) \<noteq> strip (artist_sort it))"
    by (simp split: if_splits)
  from a' b' c' show ?thesis by blast
qed

theorem ft_separate_keeps_untrimmed_witness:
  "ft_separate feat_tokens
     \<lparr>artist = ''  Solo Artist '', albumartist = '' Duo '', artist_sort = ''Artist, Solo  ''\<rparr>
     ''; '' True True =
     (\<lparr>artist = ''  Solo Artist '', albumartist = '' Duo '', artist_sort = ''Artist, Solo  ''\<rparr>, []) \<and>
   rejoined feat_tokens ''; '' ''  Solo Artist '' = strip ''  Solo Artist '' \<and>
   rejoined feat_tokens ''; '' '' Duo '' = strip '' Duo '' \<and>
   rejoined feat_tokens ''; '' ''Artist, Solo  '' = strip ''Artist, Solo  '' \<and>
   strip ''  Solo Artist '' \<noteq> ''  Solo Artist ''"
proof -
  let ?it = "\<lparr>artist = ''  Solo Artist '', albumartist = '' Duo '', artist_sort = ''Artist, Solo  ''\<rparr>"
  have h: "ft_separate feat_tokens ?it ''; '' True True = (?it, [])" by code_simp
  have s: "strip ''  Solo Artist '' = ''Solo Artist''"
    "strip '' Duo '' = ''Duo''"
    "strip ''Artist, Solo  '' = ''Artist, Solo''"
    by code_simp+
  have r: "rejoined feat_tokens ''; '' ''  Solo Artist '' = ''Solo Artist''"
    "rejoined feat_tokens ''; '' '' Duo '' = ''Duo''"
    "rejoined feat_tokens ''; '' ''Artist, Solo  '' = ''Artist, Solo''"
    by code_simp+
  from ft_separate_keeps_untrimmed [OF h] h r s show ?thesis by simp
qed






section \<open>The command and the import hook\<close>

lemma func_loop_eq:
  "func_loop pat sep al so w items =
     (map (\<lambda>it. fst (ft_separate pat it sep al so)) items,
      concat (map (\<lambda>it. snd (ft_separate pat it sep al so) @
                          [Store (fst (ft_separate pat it sep al so))] @
                          (if w then [Try_write (fst (ft_separate pat it sep al so))] else []))
                items))"
  by (induction items) (simp_all add: split_beta)

lemma imported_loop_eq:
  "imported_loop pat sep al so items =
     (map (\<lambda>it. fst (ft_separate pat it sep al so)) items,
      concat (map (\<lambda>it. snd (ft_separate pat it sep al so) @
                          [Store (fst (ft_separate pat it sep al so))])
                items))"
  by (induction items) (simp_all add: split_beta)

lemma config_get_init:
  "config_get key (config (init user)) =
     (case key user of Some v \<Rightarrow> Some v | None \<Rightarrow> key plugin_defaults)"
  by (simp add: init_def config_add_def config_get_def Let_def split: option.splits)

lemma config_get_set_args:
  "config_get key (set_args cfg opts) =
     (case key opts of Some v \<Rightarrow> Some v | None \<Rightarrow> config_get key cfg)"
  by (simp add: set_args_def config_set_def config_get_def split: option.splits)

lemma config_get_defined:
  "key plugin_defaults = Some d \<Longrightarrow>
   \<exists>v. config_get key (set_args (config (init user)) opts) = Some v"
  by (cases "key opts"; cases "key user") (simp_all add: config_get_set_args config_get_init)

lemma config_get_init_Some:
  "\<exists>separator album sort'.
     config_get s_separator (set_args (config (init user)) opts) = Some separator \<and>
     config_get s_convert_album_artist (set_args (config (init user)) opts) = Some album \<and>
     config_get s_convert_sort_artist (set_args (config (init user)) opts) = Some sort'"
proof -
  have "s_separator plugin_defaults = Some ''; ''"
    by (simp add: plugin_defaults_def)
  then have a: "\<exists>v. config_get s_separator (set_args (config (init user)) opts) = Some v"
    by (rule config_get_defined)
  have "s_convert_album_artist plugin_defaults = Some False"
    by (simp add: plugin_defaults_def)
  then have b: "\<exists>v. config_get s_convert_album_artist (set_args (config (init user)) opts) = Some v"
    by (rule config_get_defined)
  have "s_convert_sort_artist plugin_defaults = Some False"
    by (simp add: plugin_defaults_def)
  then have c: "\<exists>v. config_get s_convert_sort_artist (set_args (config (init user)) opts) = Some v"
    by (rule config_get_defined)
  from a b c show ?thesis by blast
qed

lemma func_eq:
  assumes "config_get s_separator (set_args (config self) opts) = Some separator"
    and "config_get s_convert_album_artist (set_args (config self) opts) = Some album"
    and "config_get s_convert_sort_artist (set_args (config self) opts) = Some sort'"
  shows "func pat self write items opts =
     Some (self\<lparr>config := set_args (config self) opts\<rparr>,
           map (\<lambda>it. fst (ft_separate pat it separator album sort')) items,
           concat (map (\<lambda>it. snd (ft_separate pat it separator album sort') @
                               [Store (fst (ft_separate pat it separator album sort'))] @
                               (if write
                                then [Try_write (fst (ft_separate pat it separator album sort'))]
                                else []))
                     items))"
  using assms by (simp add: func_def func_loop_eq Let_def)

text \<open>
  Claim C8. An invocation of the command resolves the separator and the two flags
  once. It then takes the items in the order of the query's result: for each item the
  log calls of \<open>ft_separate\<close>, then \<open>store()\<close> on the separated item, then
  \<open>try_write()\<close> on it exactly when the host's write setting is on. What is done for
  the first items does not depend on the items after them: the items and the effects
  of a run over a list are a prefix of those of a run over any longer list.
\<close>

theorem func_each_item_in_sequence:
  "\<exists>separator album sort'.
     config_get s_separator (set_args (config (init user)) opts) = Some separator \<and>
     config_get s_convert_album_artist (set_args (config (init user)) opts) = Some album \<and>
     config_get s_convert_sort_artist (set_args (config (init user)) opts) = Some sort' \<and>
     (\<forall>items.
        func pat (init user) write items opts =
          Some ((init user)\<lparr>config := set_args (config (init user)) opts\<rparr>,
                map (\<lambda>it. fst (ft_separate pat it separator album sort')) items,
                concat (map (\<lambda>it. snd (ft_separate pat it separator album sort') @
                                    [Store (fst (ft_separate pat it separator album sort'))] @
                                    (if write
                                     then [Try_write (fst (ft_separate pat it separator album sort'))]
                                     else []))
                          items))) \<and>
     (\<forall>items more. \<exists>self1 items1 evs1 self2 items2 evs2.
        func pat (init user) write items opts = Some (self1, items1, evs1) \<and>
        func pat (init user) write (items @ more) opts = Some (self2, items2, evs2) \<and>
        prefix items1 items2 \<and> prefix evs1 evs2)"
proof -
  from config_get_init_Some [of user opts] obtain separator album sort'
    where g: "config_get s_separator (set_args (config (init user)) opts) = Some separator"
      "config_get s_convert_album_artist (set_args (config (init user)) opts) = Some album"
      "config_get s_convert_sort_artist (set_args (config (init user)) opts) = Some sort'"
    by blast
  note f = func_eq [OF g]
  have p: "\<forall>items more. \<exists>self1 items1 evs1 self2 items2 evs2.
        func pat (init user) write items opts = Some (self1, items1, evs1) \<and>
        func pat (init user) write (items @ more) opts = Some (self2, items2, evs2) \<and>
        prefix items1 items2 \<and> prefix evs1 evs2"
    by (simp add: f)
  from g f p show ?thesis by blast
qed

theorem func_each_item_in_sequence_witness:
  "map_option snd
     (func feat_tokens
        (init \<lparr>s_auto = None, s_separator = None, s_convert_album_artist = None,
               s_convert_sort_artist = None\<rparr>)
        True
        [\<lparr>artist = ''X ft. Y'', albumartist = ''X ft. Y'', artist_sort = ''Y, X''\<rparr>,
         \<lparr>artist = ''Solo '', albumartist = [], artist_sort = []\<rparr>]
        (parse_args \<lparr>opt_s = Some '' / '', opt_a = True, opt_r = False\<rparr>)) =
   Some ([\<lparr>artist = ''X / Y'', albumartist = ''X / Y'', artist_sort = ''Y, X''\<rparr>,
          \<lparr>artist = ''Solo '', albumartist = [], artist_sort = []\<rparr>],
         [Info ''artist: {0} -> {1}'' [''X ft. Y'', ''X / Y''],
          Info ''albumartist: {0} -> {1}'' [''X ft. Y'', ''X / Y''],
          Store \<lparr>artist = ''X / Y'', albumartist = ''X / Y'', artist_sort = ''Y, X''\<rparr>,
          Try_write \<lparr>artist = ''X / Y'', albumartist = ''X / Y'', artist_sort = ''Y, X''\<rparr>,
          Store \<lparr>artist = ''Solo '', albumartist = [], artist_sort = []\<rparr>,
          Try_write \<lparr>artist = ''Solo '', albumartist = [], artist_sort = []\<rparr>])"
proof -
  let ?user = "\<lparr>s_auto = None, s_separator = None, s_convert_album_artist = None,
                s_convert_sort_artist = None\<rparr>"
  let ?opts = "parse_args \<lparr>opt_s = Some '' / '', opt_a = True, opt_r = False\<rparr>"
  let ?a = "\<lparr>artist = ''X ft. Y'', albumartist = ''X ft. Y'', artist_sort = ''Y, X''\<rparr>"
  let ?b = "\<lparr>artist = ''Solo '', albumartist = [], artist_sort = []\<rparr>"
  from func_each_item_in_sequence [of ?user ?opts feat_tokens True]
  obtain separator album sort'
    where g: "config_get s_separator (set_args (config (init ?user)) ?opts) = Some separator"
      "config_get s_convert_album_artist (set_args (config (init ?user)) ?opts) = Some album"
      "config_get s_convert_sort_artist (set_args (config (init ?user)) ?opts) = Some sort'"
    and f: "func feat_tokens (init ?user) True [?a, ?b] ?opts =
          Some ((init ?user)\<lparr>config := set_args (config (init ?user)) ?opts\<rparr>,
                map (\<lambda>it. fst (ft_separate feat_tokens it separator album sort')) [?a, ?b],
                concat (map (\<lambda>it. snd (ft_separate feat_tokens it separator album sort') @
                                    [Store (fst (ft_separate feat_tokens it separator album sort'))] @
                                    (if True
                                     then [Try_write (fst (ft_separate feat_tokens it separator album sort'))]
                                     else []))
                          [?a, ?b]))"
    by blast
  have v: "separator = '' / ''" "album = True" "sort' = False"
    using g by (simp_all add: config_get_set_args config_get_init plugin_defaults_def parse_args_def)
  have a: "ft_separate feat_tokens ?a '' / '' True False =
     (\<lparr>artist = ''X / Y'', albumartist = ''X / Y'', artist_sort = ''Y, X''\<rparr>,
      [Info ''artist: {0} -> {1}'' [''X ft. Y'', ''X / Y''],
       Info ''albumartist: {0} -> {1}'' [''X ft. Y'', ''X / Y'']])"
    by code_simp
  have b: "ft_separate feat_tokens ?b '' / '' True False = (?b, [])" by code_simp
  show ?thesis unfolding f v by (simp add: a b)
qed

lemma config_get_init_defined:
  "key plugin_defaults = Some d \<Longrightarrow> \<exists>v. config_get key (config (init user)) = Some v"
  by (cases "key user") (simp_all add: config_get_init)

lemma imported_eq:
  assumes "config_get s_separator (config self) = Some separator"
    and "config_get s_convert_album_artist (config self) = Some album"
    and "config_get s_convert_sort_artist (config self) = Some sort'"
  shows "imported pat self items =
     Some (map (\<lambda>it. fst (ft_separate pat it separator album sort')) items,
           concat (map (\<lambda>it. snd (ft_separate pat it separator album sort') @
                               [Store (fst (ft_separate pat it separator album sort'))])
                     items))"
  using assms by (simp add: imported_def imported_loop_eq)

lemma ft_separate_log_Info:
  "ev \<in> set (snd (ft_separate pat it sep ca cs)) \<Longrightarrow> \<exists>f args. ev = Info f args"
  unfolding ft_separate_log by (auto split: if_splits)

text \<open>
  Claim C9. When the user has not set \<open>auto\<close> to false, \<open>__init__\<close> registers
  \<open>imported\<close> as the one import stage. For every list of imported items, \<open>imported\<close>
  separates each item with the configured separator and flags and calls \<open>store()\<close>
  on it, in the order of the list, and never calls \<open>try_write()\<close>.
\<close>

theorem imported_hook:
  assumes "s_auto user \<noteq> Some False"
  shows
   "import_stages (init user) = [Imported] \<and>
    (\<exists>separator album sort'.
       config_get s_separator (config (init user)) = Some separator \<and>
       config_get s_convert_album_artist (config (init user)) = Some album \<and>
       config_get s_convert_sort_artist (config (init user)) = Some sort' \<and>
       (\<forall>items.
          imported pat (init user) items =
            Some (map (\<lambda>it. fst (ft_separate pat it separator album sort')) items,
                  concat (map (\<lambda>it. snd (ft_separate pat it separator album sort') @
                                      [Store (fst (ft_separate pat it separator album sort'))])
                            items)))) \<and>
    (\<forall>items items' evs x.
       imported pat (init user) items = Some (items', evs) \<longrightarrow> Try_write x \<notin> set evs)"
proof -
  have "config_get s_auto (config (init user)) = Some True"
    using assms by (cases "s_auto user") (auto simp add: config_get_init plugin_defaults_def)
  then have s: "import_stages (init user) = [Imported]"
    by (simp add: init_def Let_def)
  obtain separator album sort'
    where g: "config_get s_separator (config (init user)) = Some separator"
      "config_get s_convert_album_artist (config (init user)) = Some album"
      "config_get s_convert_sort_artist (config (init user)) = Some sort'"
  proof -
    have "s_separator plugin_defaults = Some ''; ''"
      by (simp add: plugin_defaults_def)
    then have a: "\<exists>v. config_get s_separator (config (init user)) = Some v"
      by (rule config_get_init_defined)
    have "s_convert_album_artist plugin_defaults = Some False"
      by (simp add: plugin_defaults_def)
    then have b: "\<exists>v. config_get s_convert_album_artist (config (init user)) = Some v"
      by (rule config_get_init_defined)
    have "s_convert_sort_artist plugin_defaults = Some False"
      by (simp add: plugin_defaults_def)
    then have c: "\<exists>v. config_get s_convert_sort_artist (config (init user)) = Some v"
      by (rule config_get_init_defined)
    assume "\<And>separator album sort'.
        config_get s_separator (config (init user)) = Some separator \<Longrightarrow>
        config_get s_convert_album_artist (config (init user)) = Some album \<Longrightarrow>
        config_get s_convert_sort_artist (config (init user)) = Some sort' \<Longrightarrow> thesis"
    with a b c show thesis by blast
  qed
  note f = imported_eq [OF g]
  have n: "\<forall>items items' evs x.
       imported pat (init user) items = Some (items', evs) \<longrightarrow> Try_write x \<notin> set evs"
  proof (intro allI impI)
    fix items items' evs x
    assume "imported pat (init user) items = Some (items', evs)"
    with f [of pat items] have e: "evs = concat (map (\<lambda>it. snd (ft_separate pat it separator album sort') @
                                      [Store (fst (ft_separate pat it separator album sort'))])
                            items)" by simp
    show "Try_write x \<notin> set evs"
    proof
      assume "Try_write x \<in> set evs"
      with e obtain it where "Try_write x \<in> set (snd (ft_separate pat it separator album sort'))"
        by auto
      from ft_separate_log_Info [OF this] show False by simp
    qed
  qed
  from s g f n show ?thesis by blast
qed

theorem imported_hook_witness:
  "s_auto \<lparr>s_auto = None, s_separator = Some '' / '', s_convert_album_artist = None,
            s_convert_sort_artist = None\<rparr> \<noteq> Some False \<and>
   import_stages
     (init \<lparr>s_auto = None, s_separator = Some '' / '', s_convert_album_artist = None,
            s_convert_sort_artist = None\<rparr>) = [Imported] \<and>
   imported feat_tokens
     (init \<lparr>s_auto = None, s_separator = Some '' / '', s_convert_album_artist = None,
            s_convert_sort_artist = None\<rparr>)
     [\<lparr>artist = ''X ft. Y'', albumartist = ''X ft. Y'', artist_sort = ''Y, X''\<rparr>,
      \<lparr>artist = ''Solo '', albumartist = [], artist_sort = []\<rparr>] =
   Some ([\<lparr>artist = ''X / Y'', albumartist = ''X ft. Y'', artist_sort = ''Y, X''\<rparr>,
          \<lparr>artist = ''Solo '', albumartist = [], artist_sort = []\<rparr>],
         [Info ''artist: {0} -> {1}'' [''X ft. Y'', ''X / Y''],
          Store \<lparr>artist = ''X / Y'', albumartist = ''X ft. Y'', artist_sort = ''Y, X''\<rparr>,
          Store \<lparr>artist = ''Solo '', albumartist = [], artist_sort = []\<rparr>])"
proof -
  let ?user = "\<lparr>s_auto = None, s_separator = Some '' / '', s_convert_album_artist = None,
                s_convert_sort_artist = None\<rparr>"
  let ?a = "\<lparr>artist = ''X ft. Y'', albumartist = ''X ft. Y'', artist_sort = ''Y, X''\<rparr>"
  let ?b = "\<lparr>artist = ''Solo '', albumartist = [], artist_sort = []\<rparr>"
  have h: "s_auto ?user \<noteq> Some False" by simp
  from imported_hook [OF h, of feat_tokens]
  obtain separator album sort'
    where s: "import_stages (init ?user) = [Imported]"
      and g: "config_get s_separator (config (init ?user)) = Some separator"
      "config_get s_convert_album_artist (config (init ?user)) = Some album"
      "config_get s_convert_sort_artist (config (init ?user)) = Some sort'"
      and f: "imported feat_tokens (init ?user) [?a, ?b] =
            Some (map (\<lambda>it. fst (ft_separate feat_tokens it separator album sort')) [?a, ?b],
                  concat (map (\<lambda>it. snd (ft_separate feat_tokens it separator album sort') @
                                      [Store (fst (ft_separate feat_tokens it separator album sort'))])
                            [?a, ?b]))"
    by blast
  have v: "separator = '' / ''" "album = False" "sort' = False"
    using g by (simp_all add: config_get_init plugin_defaults_def)
  have a: "ft_separate feat_tokens ?a '' / '' False False =
     (\<lparr>artist = ''X / Y'', albumartist = ''X ft. Y'', artist_sort = ''Y, X''\<rparr>,
      [Info ''artist: {0} -> {1}'' [''X ft. Y'', ''X / Y'']])"
    by code_simp
  have b: "ft_separate feat_tokens ?b '' / '' False False = (?b, [])" by code_simp
  show ?thesis unfolding f v using h s by (simp add: a b)
qed

text \<open>
  Claim C1 does not hold of the code. The user has configured the separator
  \<open>" / "\<close> and runs the command without \<open>-s\<close>. The parser's default for the
  option, \<open>"; "\<close>, is not \<open>None\<close>, so \<open>set_args\<close> puts it above the user's value:
  the artist \<open>"X ft. Y"\<close> becomes \<open>"X; Y"\<close>, not \<open>"X / Y"\<close>. The two lemmas after the
  theorem state the same for every configuration: without the flag the separator is
  \<open>"; "\<close>, with the flag it is the flag's argument.
\<close>

theorem func_separator_without_flag:
  "config_get s_separator
     (config (init \<lparr>s_auto = None, s_separator = Some '' / '', s_convert_album_artist = None,
                    s_convert_sort_artist = None\<rparr>)) = Some '' / '' \<and>
   map_option snd
     (func feat_tokens
        (init \<lparr>s_auto = None, s_separator = Some '' / '', s_convert_album_artist = None,
               s_convert_sort_artist = None\<rparr>)
        False
        [\<lparr>artist = ''X ft. Y'', albumartist = [], artist_sort = []\<rparr>]
        (parse_args \<lparr>opt_s = None, opt_a = False, opt_r = False\<rparr>)) =
   Some ([\<lparr>artist = ''X; Y'', albumartist = [], artist_sort = []\<rparr>],
         [Info ''artist: {0} -> {1}'' [''X ft. Y'', ''X; Y''],
          Store \<lparr>artist = ''X; Y'', albumartist = [], artist_sort = []\<rparr>])"
proof -
  let ?user = "\<lparr>s_auto = None, s_separator = Some '' / '', s_convert_album_artist = None,
                s_convert_sort_artist = None\<rparr>"
  let ?opts = "parse_args \<lparr>opt_s = None, opt_a = False, opt_r = False\<rparr>"
  let ?a = "\<lparr>artist = ''X ft. Y'', albumartist = [], artist_sort = []\<rparr>"
  have c: "config_get s_separator (config (init ?user)) = Some '' / ''"
    by (simp add: config_get_init)
  have g: "config_get s_separator (set_args (config (init ?user)) ?opts) = Some ''; ''"
    "config_get s_convert_album_artist (set_args (config (init ?user)) ?opts) = Some False"
    "config_get s_convert_sort_artist (set_args (config (init ?user)) ?opts) = Some False"
    by (simp_all add: config_get_set_args config_get_init plugin_defaults_def parse_args_def)
  have a: "ft_separate feat_tokens ?a ''; '' False False =
     (\<lparr>artist = ''X; Y'', albumartist = [], artist_sort = []\<rparr>,
      [Info ''artist: {0} -> {1}'' [''X ft. Y'', ''X; Y'']])"
    by code_simp
  show ?thesis unfolding func_eq [OF g] using c by (simp add: a)
qed

lemma separator_without_flag:
  "config_get s_separator
     (set_args (config (init user)) (parse_args \<lparr>opt_s = None, opt_a = a, opt_r = r\<rparr>)) =
   Some ''; ''"
  by (simp add: config_get_set_args parse_args_def)

lemma separator_with_flag:
  "config_get s_separator
     (set_args (config (init user)) (parse_args \<lparr>opt_s = Some v, opt_a = a, opt_r = r\<rparr>)) =
   Some v"
  by (simp add: config_get_set_args parse_args_def)

end
